theory Spec2Isabelle
  imports Complex_Main
begin

section \<open>The double-slit particle accumulation of \<^verbatim>\<open>show_doubleslit\<close>\<close>

text \<open>
  The development follows \<^verbatim>\<open>src/website.py\<close>, function \<^verbatim>\<open>show_doubleslit\<close> and its nested
  frame callback \<^verbatim>\<open>animate\<close>. Positions and probabilities are real numbers here; the
  program computes them in double precision, which the model idealises.
\<close>

subsection \<open>The probability model\<close>

text \<open>
  \<^verbatim>\<open>np.sinc(x)\<close> is numpy's normalised sinc, \<open>sin (\<pi> x) / (\<pi> x)\<close>, with the value 1 at 0.
\<close>

definition np_sinc :: "real \<Rightarrow> real" where
  "np_sinc x = (if x = 0 then 1 else sin (pi * x) / (pi * x))"

text \<open>
  \<^verbatim>\<open>prob = (np.cos(10*r_y)**2 * np.sinc(2*r_y)**2)\<close>, the same expression that line 277
  plots as the theory curve \<^verbatim>\<open>I\<close>.
\<close>

definition prob :: "real \<Rightarrow> real" where
  "prob r_y = (cos (10 * r_y))\<^sup>2 * (np_sinc (2 * r_y))\<^sup>2"

subsection \<open>The random source\<close>

text \<open>
  The generator is an input of the model: \<open>rng k\<close> is the pair of values that the \<open>k\<close>-th
  pass through the sampling loop receives, first from \<^verbatim>\<open>np.random.uniform(-1, 1)\<close> and then
  from \<^verbatim>\<open>np.random.random()\<close>. The draws of \<^verbatim>\<open>np.random.normal\<close> only scatter the impact
  dots horizontally and are left out.
\<close>

type_synonym rng = "nat \<Rightarrow> real \<times> real"

text \<open>The test of the loop, \<^verbatim>\<open>np.random.random() < prob\<close>, at pass \<open>k\<close>.\<close>

definition accepted :: "rng \<Rightarrow> nat \<Rightarrow> bool" where
  "accepted rng k = (snd (rng k) < prob (fst (rng k)))"

text \<open>The ranges the two library calls promise.\<close>

definition in_range :: "rng \<Rightarrow> bool" where
  "in_range rng = (\<forall>k. - 1 \<le> fst (rng k) \<and> fst (rng k) \<le> 1 \<and> 0 \<le> snd (rng k) \<and> snd (rng k) < 1)"

text \<open>From every pass on, some later pass accepts.\<close>

definition fair :: "rng \<Rightarrow> bool" where
  "fair rng = (\<forall>i. \<exists>n. accepted rng (i + n))"

subsection \<open>Rejection sampling\<close>

text \<open>
  The \<^verbatim>\<open>while True\<close> loop of lines 289 to 294. It has no bound, so the model is a partial
  function: \<open>None\<close> stands for a loop that never leaves. A result \<open>Some (r_y, j)\<close> is the
  accepted candidate and the number of the next unused pass.
\<close>

partial_function (option) rejection_sampling :: "rng \<Rightarrow> nat \<Rightarrow> (real \<times> nat) option" where
  "rejection_sampling rng i =
     (let r_y = fst (rng i); u = snd (rng i)
      in if u < prob r_y then Some (r_y, Suc i) else rejection_sampling rng (Suc i))"

subsection \<open>The histogram bins and the state of one run\<close>

text \<open>
  \<^verbatim>\<open>np.linspace(start, stop, num)\<close>: \<open>num\<close> evenly spaced points from \<open>start\<close> to
  \<open>stop\<close>, both included.
\<close>

definition np_linspace :: "real \<Rightarrow> real \<Rightarrow> nat \<Rightarrow> real list" where
  "np_linspace start stop num =
     (if num = 1 then [start]
      else map (\<lambda>i. start + real i * ((stop - start) / real (num - 1))) [0..<num])"

text \<open>\<^verbatim>\<open>bins = np.linspace(-1, 1, 30)\<close>: the 30 edges of 29 bins.\<close>

definition bins :: "real list" where
  "bins = np_linspace (- 1) 1 30"

text \<open>
  What the callback reads and writes between frames: the list \<^verbatim>\<open>landed_y\<close>, the data of
  the artists \<^verbatim>\<open>dot\<close> (a point, or nothing), \<^verbatim>\<open>impacts\<close> (the vertical coordinates) and
  \<^verbatim>\<open>bars\<close> (the widths), and the number of sampling passes the generator has served.
\<close>

record state =
  landed_y :: "real list"
  dot :: "(real \<times> real) option"
  impacts :: "real list"
  bars :: "real list"
  np_random :: nat

text \<open>
  Lines 263, 268, 281 and 283: \<^verbatim>\<open>plot([], [])\<close> for the dot and the impacts,
  \<^verbatim>\<open>np.zeros(29)\<close> for the bar widths, \<^verbatim>\<open>landed_y = []\<close>.
\<close>

definition show_doubleslit_init :: state where
  "show_doubleslit_init =
     \<lparr>landed_y = [], dot = None, impacts = [], bars = replicate 29 0, np_random = 0\<rparr>"

subsection \<open>Library calls of the histogram step\<close>

datatype error = ValueError

text \<open>
  The counts of \<^verbatim>\<open>np.histogram(a, bins=edges)\<close>: every bin is half-open,
  \<open>[e\<^sub>i, e\<^sub>i\<^sub>+\<^sub>1)\<close>, except the last one, which includes its right edge. Values outside all
  bins are not counted.
\<close>

fun bin_counts :: "real list \<Rightarrow> real list \<Rightarrow> nat list" where
  "bin_counts a [lo, hi] = [length (filter (\<lambda>x. lo \<le> x \<and> x \<le> hi) a)]"
| "bin_counts a (lo # hi # edges) =
     length (filter (\<lambda>x. lo \<le> x \<and> x < hi) a) # bin_counts a (hi # edges)"
| "bin_counts a edges = []"

text \<open>\<^verbatim>\<open>np.histogram\<close> raises \<^verbatim>\<open>ValueError\<close> when the edges do not increase monotonically.\<close>

definition np_histogram :: "real list \<Rightarrow> real list \<Rightarrow> error + nat list" where
  "np_histogram a edges = (if sorted edges then Inr (bin_counts a edges) else Inl ValueError)"

text \<open>Python's \<^verbatim>\<open>max\<close> raises \<^verbatim>\<open>ValueError\<close> on an empty sequence.\<close>

fun py_max :: "nat list \<Rightarrow> error + nat" where
  "py_max [] = Inl ValueError"
| "py_max (h # hs) = Inr (fold max hs h)"

text \<open>
  \<^verbatim>\<open>for bar, h in zip(bars, hist): bar.set_width(h)\<close>; \<^verbatim>\<open>zip\<close> stops at the shorter
  sequence and the remaining bars keep their width.
\<close>

fun set_width :: "real list \<Rightarrow> real list \<Rightarrow> real list" where
  "set_width (bar # bars') (h # hist) = h # set_width bars' hist"
| "set_width bars' hist = bars'"

subsection \<open>The frame callback\<close>

text \<open>
  Lines 287 to 294: on every fifth frame one position is sampled and appended. \<open>None\<close> is a
  sampling loop that does not return.
\<close>

definition determine_target :: "rng \<Rightarrow> state \<Rightarrow> nat \<Rightarrow> state option" where
  "determine_target rng st frame =
     (if frame mod 5 = 0 then
        (case rejection_sampling rng (np_random st) of
           None \<Rightarrow> None
         | Some (r_y, j) \<Rightarrow> Some (st\<lparr>landed_y := landed_y st @ [r_y], np_random := j\<rparr>))
      else Some st)"

text \<open>Lines 297 to 302: the dot in flight. Without a target the dot is left as it is.\<close>

definition flight :: "state \<Rightarrow> nat \<Rightarrow> state" where
  "flight st frame =
     (let sub = frame mod 5;
          prog = real sub / 5
      in if landed_y st \<noteq> [] then
           (let target = last (landed_y st)
            in st\<lparr>dot := Some (- 1.5 + 4 * prog, target * prog)\<rparr>)
         else st)"

text \<open>Line 305: the impact dots are drawn at the heights in \<^verbatim>\<open>landed_y\<close>.\<close>

definition set_impacts :: "state \<Rightarrow> state" where
  "set_impacts st = st\<lparr>impacts := landed_y st\<rparr>"

text \<open>
  Lines 308 to 312: the counts are divided by their maximum when that is positive and are
  left as they are otherwise; the bars are only touched once a particle has landed.
\<close>

definition histogram :: "state \<Rightarrow> error + state" where
  "histogram st =
     (case np_histogram (landed_y st) bins of
        Inl e \<Rightarrow> Inl e
      | Inr hist \<Rightarrow>
          if length (landed_y st) > 0 then
            (case py_max hist of
               Inl e \<Rightarrow> Inl e
             | Inr m \<Rightarrow>
                 (let hist' = (if m > 0 then map (\<lambda>h. real h / real m) hist else map real hist)
                  in Inr (st\<lparr>bars := set_width (bars st) hist'\<rparr>)))
          else Inr st)"

text \<open>
  The callback \<^verbatim>\<open>animate(frame)\<close>. The driver passes the frames of \<^verbatim>\<open>range(100)\<close>, so a
  frame is a natural number. The result is \<open>None\<close> when the call does not return,
  \<open>Some (Inl e)\<close> when it raises and \<open>Some (Inr st')\<close> with the state it leaves otherwise.
\<close>

definition animate :: "rng \<Rightarrow> state \<Rightarrow> nat \<Rightarrow> (error + state) option" where
  "animate rng st frame =
     (case determine_target rng st frame of
        None \<Rightarrow> None
      | Some st1 \<Rightarrow> Some (histogram (set_impacts (flight st1 frame))))"

text \<open>The callback called on a list of frames in turn, stopping where a call fails.\<close>

fun run :: "rng \<Rightarrow> state \<Rightarrow> nat list \<Rightarrow> (error + state) option" where
  "run rng st [] = Some (Inr st)"
| "run rng st (frame # frames) =
     (case animate rng st frame of
        None \<Rightarrow> None
      | Some (Inl e) \<Rightarrow> Some (Inl e)
      | Some (Inr st') \<Rightarrow> run rng st' frames)"

subsection \<open>Auxiliary notions for the proofs\<close>

text \<open>
  The widths the histogram step gives the bars for the landed positions \<open>a\<close>: the two
  branches of line 310, with the maximum of the 29 counts.
\<close>

definition relative_counts :: "real list \<Rightarrow> real list" where
  "relative_counts a =
     (let hist = bin_counts a bins; m = Max (set hist)
      in if m > 0 then map (\<lambda>h. real h / real m) hist else map real hist)"

text \<open>
  What holds of every state that the callback reaches from the initial one: the landed
  positions are candidates of the generator, there are 29 bars, and the dot and the bars
  have been set exactly when a particle has landed.
\<close>

definition consistent :: "rng \<Rightarrow> state \<Rightarrow> bool" where
  "consistent rng st =
     (set (landed_y st) \<subseteq> range (\<lambda>k. fst (rng k)) \<and>
      (if landed_y st = [] then dot st = None \<and> bars st = replicate 29 0
       else dot st \<noteq> None \<and> bars st = relative_counts (landed_y st)))"

subsection \<open>Some random sources\<close>

text \<open>Every pass proposes the centre \<open>y = 0\<close> with threshold \<open>u = 0\<close>.\<close>

definition always_centre :: rng where
  "always_centre = (\<lambda>k. (0, 0))"

text \<open>
  The first \<open>m\<close> passes propose \<open>y = 1/2\<close>, where the intensity is 0, with threshold
  \<open>u = 1/2\<close>, and every later pass proposes the centre with threshold 0.
\<close>

definition late_centre :: "nat \<Rightarrow> rng" where
  "late_centre m = (\<lambda>k. if k < m then (1 / 2, 1 / 2) else (0, 0))"

text \<open>Every pass proposes \<open>y = 1/20\<close> with threshold \<open>u = 0\<close>.\<close>

definition off_centre :: rng where
  "off_centre = (\<lambda>k. (1 / 20, 0))"

text \<open>Every pass proposes \<open>y = 1/2\<close> with threshold \<open>u = 1/2\<close>.\<close>

definition never_centre :: rng where
  "never_centre = (\<lambda>k. (1 / 2, 1 / 2))"

section \<open>Properties\<close>

subsection \<open>The intensity is a probability\<close>

lemma np_sinc_sq_le_1: "(np_sinc x)\<^sup>2 \<le> 1"
proof (cases "x = 0")
  case True
  then show ?thesis by (simp add: np_sinc_def)
next
  case False
  have "\<bar>sin (pi * x)\<bar> \<le> \<bar>pi * x\<bar>"
    by (rule abs_sin_x_le_abs_x)
  then have "\<bar>sin (pi * x) / (pi * x)\<bar> \<le> 1"
    using False by (simp add: field_simps)
  then have "\<bar>np_sinc x\<bar> \<le> 1"
    using False by (simp add: np_sinc_def)
  then show ?thesis
    by (simp add: abs_square_le_1)
qed

lemma cos_sq_le_1: "(cos (x::real))\<^sup>2 \<le> 1"
  by (simp add: abs_square_le_1)

lemma prob_0: "prob 0 = 1"
  by (simp add: prob_def np_sinc_def)

lemma prob_half: "prob (1 / 2) = 0"
  by (simp add: prob_def np_sinc_def)

text \<open>
  Claim C2. For every real position \<open>y\<close> the intensity
  \<open>cos (10 y)\<^sup>2 \<sqdot> sinc (2 y)\<^sup>2\<close>, with \<open>sinc 0 = 1\<close>, lies between 0 and 1. The function
  is total: it has a value at every \<open>y\<close>, also where the argument of the sinc is 0.
\<close>

theorem prob_bounded: "0 \<le> prob y \<and> prob y \<le> 1"
proof
  show "0 \<le> prob y" by (simp add: prob_def)
  have "(cos (10 * y))\<^sup>2 * (np_sinc (2 * y))\<^sup>2 \<le> 1 * 1"
    by (rule mult_mono) (simp_all add: cos_sq_le_1 np_sinc_sq_le_1)
  then show "prob y \<le> 1" by (simp add: prob_def)
qed

subsection \<open>The sampling loop\<close>

lemma sampling_accept:
  "accepted rng i \<Longrightarrow> rejection_sampling rng i = Some (fst (rng i), Suc i)"
  by (subst rejection_sampling.simps) (simp add: accepted_def)

lemma sampling_reject:
  "\<not> accepted rng i \<Longrightarrow> rejection_sampling rng i = rejection_sampling rng (Suc i)"
  by (subst rejection_sampling.simps) (simp add: accepted_def)

lemma sampling_skip:
  "(\<And>k. k < n \<Longrightarrow> \<not> accepted rng (i + k)) \<Longrightarrow>
     rejection_sampling rng i = rejection_sampling rng (i + n)"
proof (induction n arbitrary: i)
  case 0
  show ?case by simp
next
  case (Suc n)
  have "\<not> accepted rng i"
    using Suc.prems [of 0] by simp
  then have "rejection_sampling rng i = rejection_sampling rng (Suc i)"
    by (rule sampling_reject)
  also have "\<dots> = rejection_sampling rng (Suc i + n)"
  proof (rule Suc.IH)
    fix k assume "k < n"
    then show "\<not> accepted rng (Suc i + k)"
      using Suc.prems [of "Suc k"] by simp
  qed
  finally show ?case by simp
qed

lemma sampling_first:
  assumes "accepted rng (i + n)" and "\<And>k. k < n \<Longrightarrow> \<not> accepted rng (i + k)"
  shows "rejection_sampling rng i = Some (fst (rng (i + n)), Suc (i + n))"
  using sampling_skip [of n rng i] assms sampling_accept [of rng "i + n"] by simp

lemma sampling_Some:
  assumes "rejection_sampling rng i = Some r"
  shows "\<exists>n. accepted rng (i + n) \<and> (\<forall>k<n. \<not> accepted rng (i + k)) \<and>
             r = (fst (rng (i + n)), Suc (i + n))"
proof (rule rejection_sampling.raw_induct
    [where P = "\<lambda>rng i r. \<exists>n. accepted rng (i + n) \<and> (\<forall>k<n. \<not> accepted rng (i + k)) \<and>
                  r = (fst (rng (i + n)), Suc (i + n))", OF _ assms])
  fix f :: "rng \<Rightarrow> nat \<Rightarrow> (real \<times> nat) option" and rng :: rng and i r
  assume IH: "\<And>rng i r. f rng i = Some r \<Longrightarrow>
      \<exists>n. accepted rng (i + n) \<and> (\<forall>k<n. \<not> accepted rng (i + k)) \<and>
          r = (fst (rng (i + n)), Suc (i + n))"
    and body: "(let r_y = fst (rng i); u = snd (rng i)
      in if u < prob r_y then Some (r_y, Suc i) else f rng (Suc i)) = Some r"
  show "\<exists>n. accepted rng (i + n) \<and> (\<forall>k<n. \<not> accepted rng (i + k)) \<and>
          r = (fst (rng (i + n)), Suc (i + n))"
  proof (cases "accepted rng i")
    case True
    then have "r = (fst (rng i), Suc i)"
      using body by (simp add: accepted_def)
    with True show ?thesis
      by (intro exI [of _ 0]) simp
  next
    case False
    then have "f rng (Suc i) = Some r"
      using body by (simp add: accepted_def)
    then obtain n where n: "accepted rng (Suc i + n)"
      "\<forall>k<n. \<not> accepted rng (Suc i + k)" "r = (fst (rng (Suc i + n)), Suc (Suc i + n))"
      using IH by blast
    have "\<forall>k<Suc n. \<not> accepted rng (i + k)"
    proof (intro allI impI)
      fix k assume "k < Suc n"
      show "\<not> accepted rng (i + k)"
      proof (cases k)
        case 0
        with False show ?thesis by simp
      next
        case (Suc k')
        with \<open>k < Suc n\<close> n(2) show ?thesis by simp
      qed
    qed
    with n(1,3) show ?thesis
      by (intro exI [of _ "Suc n"]) simp
  qed
qed

lemma sampling_None:
  "(\<And>k. \<not> accepted rng (i + k)) \<Longrightarrow> rejection_sampling rng i = None"
proof (rule ccontr)
  assume never: "\<And>k. \<not> accepted rng (i + k)" and "rejection_sampling rng i \<noteq> None"
  then obtain r where "rejection_sampling rng i = Some r" by blast
  from sampling_Some [OF this] never show False by blast
qed

lemma sampling_fair:
  assumes "fair rng"
  shows "\<exists>n. rejection_sampling rng i = Some (fst (rng (i + n)), Suc (i + n))"
proof -
  from assms obtain m where m: "accepted rng (i + m)"
    unfolding fair_def by blast
  define n where "n = (LEAST m. accepted rng (i + m))"
  have "accepted rng (i + n)"
    unfolding n_def using m by (rule LeastI)
  moreover have "\<not> accepted rng (i + k)" if "k < n" for k
    using that not_less_Least unfolding n_def by blast
  ultimately show ?thesis
    using sampling_first [of rng i n] by blast
qed

lemma accepted_always_centre: "accepted always_centre k"
  by (simp add: accepted_def always_centre_def prob_0)

lemma accepted_late_centre: "accepted (late_centre m) k \<longleftrightarrow> m \<le> k"
  by (simp add: accepted_def late_centre_def prob_0 prob_half)

lemma accepted_never_centre: "\<not> accepted never_centre k"
  by (simp add: accepted_def never_centre_def prob_half)

lemma fair_always_centre: "fair always_centre"
  by (simp add: fair_def accepted_always_centre)

lemma in_range_always_centre: "in_range always_centre"
  by (simp add: in_range_def always_centre_def)

subsection \<open>Bins and counts\<close>

lemma bins_eq:
  "bins = [- 1, - (27 / 29), - (25 / 29), - (23 / 29), - (21 / 29), - (19 / 29),
  - (17 / 29), - (15 / 29), - (13 / 29), - (11 / 29), - (9 / 29),
  - (7 / 29), - (5 / 29), - (3 / 29), - (1 / 29), 1 / 29, 3 / 29, 5 / 29,
  7 / 29, 9 / 29, 11 / 29, 13 / 29, 15 / 29, 17 / 29, 19 / 29, 21 / 29,
  23 / 29, 25 / 29, 27 / 29, 1]"
  by (simp add: bins_def np_linspace_def upt_rec)

lemma sorted_bins: "sorted bins"
  by (simp add: bins_eq)

lemma hd_bins: "hd bins = - 1"
  by (simp add: bins_eq)

lemma last_bins: "last bins = 1"
  by (simp add: bins_eq)

lemma length_bins: "length bins = 30"
  by (simp add: bins_def np_linspace_def)

lemma length_bin_counts: "length (bin_counts a edges) = length edges - 1"
  by (induction a edges rule: bin_counts.induct) simp_all

lemma bin_counts_covers:
  "x \<in> set a \<Longrightarrow> 2 \<le> length edges \<Longrightarrow> hd edges \<le> x \<Longrightarrow> x \<le> last edges \<Longrightarrow>
     \<exists>c \<in> set (bin_counts a edges). 1 \<le> c"
proof (induction a edges rule: bin_counts.induct)
  case (1 a lo hi)
  then have "x \<in> set (filter (\<lambda>x. lo \<le> x \<and> x \<le> hi) a)" by simp
  then have "filter (\<lambda>x. lo \<le> x \<and> x \<le> hi) a \<noteq> []" by fastforce
  then show ?case by (simp add: Suc_le_eq)
next
  case (2 a lo hi e edges)
  show ?case
  proof (cases "x < hi")
    case True
    with 2 have "x \<in> set (filter (\<lambda>x. lo \<le> x \<and> x < hi) a)" by simp
    then have "filter (\<lambda>x. lo \<le> x \<and> x < hi) a \<noteq> []" by fastforce
    then show ?thesis by (simp add: Suc_le_eq)
  next
    case False
    with 2 have "\<exists>c \<in> set (bin_counts a (hi # e # edges)). 1 \<le> c" by simp
    then show ?thesis by auto
  qed
qed simp_all

lemma py_max_Max: "hs \<noteq> [] \<Longrightarrow> py_max hs = Inr (Max (set hs))"
proof (cases hs)
  case Nil
  assume "hs \<noteq> []"
  with Nil show ?thesis by simp
next
  case (Cons h t)
  have "fold max t h = Max (set (h # t))"
    by (rule Max.set_eq_fold [symmetric])
  with Cons show ?thesis by (simp del: list.set)
qed

lemma np_histogram_bins: "np_histogram a bins = Inr (bin_counts a bins)"
  by (simp add: np_histogram_def sorted_bins)

lemma length_counts_bins: "length (bin_counts a bins) = 29"
  by (simp add: length_bin_counts length_bins)

lemma set_width_same_length: "length bs = length hs \<Longrightarrow> set_width bs hs = hs"
  by (induction bs hs rule: set_width.induct) simp_all

lemma histogram_empty: "landed_y st = [] \<Longrightarrow> histogram st = Inr st"
  by (simp add: histogram_def np_histogram_bins)

lemma histogram_landed:
  assumes "landed_y st \<noteq> []"
  shows "histogram st =
     Inr (st\<lparr>bars := set_width (bars st) (relative_counts (landed_y st))\<rparr>)"
proof -
  have "bin_counts (landed_y st) bins \<noteq> []"
    using length_counts_bins [of "landed_y st"] by auto
  then have "py_max (bin_counts (landed_y st) bins) = Inr (Max (set (bin_counts (landed_y st) bins)))"
    by (rule py_max_Max)
  with assms show ?thesis
    by (simp add: histogram_def np_histogram_bins relative_counts_def Let_def)
qed

lemma length_relative_counts: "length (relative_counts a) = 29"
  by (simp add: relative_counts_def Let_def length_counts_bins)

lemma relative_counts_bounds:
  assumes "w \<in> set (relative_counts a)"
  shows "0 \<le> w \<and> w \<le> 1"
proof -
  define hist where "hist = bin_counts a bins"
  define m where "m = Max (set hist)"
  have le: "h \<le> m" if "h \<in> set hist" for h
    using that unfolding m_def by simp
  show ?thesis
  proof (cases "m > 0")
    case True
    with assms obtain h where "h \<in> set hist" "w = real h / real m"
      by (auto simp: relative_counts_def Let_def hist_def m_def)
    with le [of h] True show ?thesis by simp
  next
    case False
    with assms obtain h where "h \<in> set hist" "w = real h"
      by (auto simp: relative_counts_def Let_def hist_def m_def)
    with le [of h] False show ?thesis by simp
  qed
qed

lemma Max_counts_positive:
  assumes "x \<in> set a" "- 1 \<le> x" "x \<le> 1"
  shows "1 \<le> Max (set (bin_counts a bins))"
proof -
  have "\<exists>c \<in> set (bin_counts a bins). 1 \<le> c"
    using assms by (intro bin_counts_covers [of x]) (simp_all add: length_bins hd_bins last_bins)
  then obtain c where "c \<in> set (bin_counts a bins)" "1 \<le> c" by blast
  then show ?thesis
    by (meson List.finite_set Max_ge order_trans)
qed

lemma relative_counts_full:
  assumes "x \<in> set a" "- 1 \<le> x" "x \<le> 1"
  shows "1 \<in> set (relative_counts a)"
proof -
  define hist where "hist = bin_counts a bins"
  define m where "m = Max (set hist)"
  have pos: "0 < m"
    using Max_counts_positive [OF assms] by (simp add: m_def hist_def)
  have "hist \<noteq> []"
    using length_counts_bins [of a] by (auto simp: hist_def)
  then have "m \<in> set hist"
    unfolding m_def by (intro Max_in) simp_all
  then have "real m / real m \<in> set (map (\<lambda>h. real h / real m) hist)"
    by simp
  with pos show ?thesis
    by (simp add: relative_counts_def Let_def hist_def m_def)
qed

subsection \<open>One call of the callback\<close>

lemma determine_target_other:
  "frame mod 5 \<noteq> 0 \<Longrightarrow> determine_target rng st frame = Some st"
  by (simp add: determine_target_def)

lemma determine_target_sample:
  "frame mod 5 = 0 \<Longrightarrow> rejection_sampling rng (np_random st) = Some (r_y, j) \<Longrightarrow>
     determine_target rng st frame = Some (st\<lparr>landed_y := landed_y st @ [r_y], np_random := j\<rparr>)"
  by (simp add: determine_target_def)

lemma determine_target_None:
  "frame mod 5 = 0 \<Longrightarrow> rejection_sampling rng (np_random st) = None \<Longrightarrow>
     determine_target rng st frame = None"
  by (simp add: determine_target_def)

lemma determine_target_Some:
  assumes "determine_target rng st frame = Some st1"
  shows "if frame mod 5 = 0
         then \<exists>n. accepted rng (np_random st + n) \<and> (\<forall>k<n. \<not> accepted rng (np_random st + k)) \<and>
                st1 = st\<lparr>landed_y := landed_y st @ [fst (rng (np_random st + n))],
                         np_random := Suc (np_random st + n)\<rparr>
         else st1 = st"
proof (cases "frame mod 5 = 0")
  case False
  with assms show ?thesis by (simp add: determine_target_def)
next
  case True
  with assms obtain r where r: "rejection_sampling rng (np_random st) = Some r"
    and st1: "st1 = st\<lparr>landed_y := landed_y st @ [fst r], np_random := snd r\<rparr>"
    by (auto simp: determine_target_def split: option.splits)
  from sampling_Some [OF r] st1 True show ?thesis by auto
qed

text \<open>The part of the callback after the sampling: lines 297 to 312.\<close>

lemma display_result:
  "\<exists>st'. histogram (set_impacts (flight st frame)) = Inr st' \<and>
      landed_y st' = landed_y st \<and> np_random st' = np_random st \<and>
      impacts st' = landed_y st \<and>
      dot st' = (if landed_y st = [] then dot st
                 else Some (- 1.5 + 4 * (real (frame mod 5) / 5),
                            last (landed_y st) * (real (frame mod 5) / 5))) \<and>
      bars st' = (if landed_y st = [] then bars st
                  else set_width (bars st) (relative_counts (landed_y st)))"
proof (cases "landed_y st = []")
  case True
  then show ?thesis
    by (simp add: histogram_empty set_impacts_def flight_def)
next
  case False
  then have "landed_y (set_impacts (flight st frame)) \<noteq> []"
    by (simp add: set_impacts_def flight_def Let_def)
  from histogram_landed [OF this] False show ?thesis
    by (simp add: set_impacts_def flight_def Let_def)
qed

lemma animate_Some:
  assumes "animate rng st frame = Some r"
  shows "\<exists>st1. determine_target rng st frame = Some st1 \<and>
           r = histogram (set_impacts (flight st1 frame))"
  using assms by (auto simp: animate_def split: option.splits)

lemma animate_never_raises: "animate rng st frame \<noteq> Some (Inl e)"
proof
  assume "animate rng st frame = Some (Inl e)"
  from animate_Some [OF this] obtain st1 where
    "Inl e = histogram (set_impacts (flight st1 frame))" by blast
  with display_result [of st1 frame] show False by auto
qed

lemma animate_other:
  assumes "frame mod 5 \<noteq> 0"
  shows "\<exists>st'. animate rng st frame = Some (Inr st') \<and>
      landed_y st' = landed_y st \<and> np_random st' = np_random st \<and>
      impacts st' = landed_y st \<and>
      dot st' = (if landed_y st = [] then dot st
                 else Some (- 1.5 + 4 * (real (frame mod 5) / 5),
                            last (landed_y st) * (real (frame mod 5) / 5))) \<and>
      bars st' = (if landed_y st = [] then bars st
                  else set_width (bars st) (relative_counts (landed_y st)))"
  using display_result [of st frame] assms
  by (simp add: animate_def determine_target_other)

lemma animate_sample:
  assumes "frame mod 5 = 0" and "rejection_sampling rng (np_random st) = Some (r_y, j)"
  shows "\<exists>st'. animate rng st frame = Some (Inr st') \<and>
      landed_y st' = landed_y st @ [r_y] \<and> np_random st' = j \<and>
      impacts st' = landed_y st @ [r_y] \<and>
      dot st' = Some (- 1.5, 0) \<and>
      bars st' = set_width (bars st) (relative_counts (landed_y st @ [r_y]))"
  using display_result [of "st\<lparr>landed_y := landed_y st @ [r_y], np_random := j\<rparr>" frame] assms
  by (simp add: animate_def determine_target_sample)

lemma animate_None:
  assumes "frame mod 5 = 0" and "rejection_sampling rng (np_random st) = None"
  shows "animate rng st frame = None"
  using assms by (simp add: animate_def determine_target_None)

lemma animate_Inr:
  assumes "animate rng st frame = Some (Inr st')"
  shows "if frame mod 5 = 0
     then \<exists>n. accepted rng (np_random st + n) \<and> (\<forall>k<n. \<not> accepted rng (np_random st + k)) \<and>
            landed_y st' = landed_y st @ [fst (rng (np_random st + n))] \<and>
            np_random st' = Suc (np_random st + n) \<and>
            dot st' = Some (- 1.5, 0) \<and>
            bars st' = set_width (bars st) (relative_counts (landed_y st'))
     else landed_y st' = landed_y st \<and> np_random st' = np_random st \<and>
          dot st' = (if landed_y st = [] then dot st
                     else Some (- 1.5 + 4 * (real (frame mod 5) / 5),
                                last (landed_y st) * (real (frame mod 5) / 5))) \<and>
          bars st' = (if landed_y st = [] then bars st
                      else set_width (bars st) (relative_counts (landed_y st)))"
proof (cases "frame mod 5 = 0")
  case False
  from animate_other [OF False, of rng st] assms False show ?thesis by auto
next
  case True
  have "rejection_sampling rng (np_random st) \<noteq> None"
  proof
    assume "rejection_sampling rng (np_random st) = None"
    from animate_None [OF True this] assms show False by simp
  qed
  then obtain r where r: "rejection_sampling rng (np_random st) = Some r"
    by (cases "rejection_sampling rng (np_random st)") simp_all
  from sampling_Some [OF r] obtain n where n: "accepted rng (np_random st + n)"
    "\<forall>k<n. \<not> accepted rng (np_random st + k)"
    "r = (fst (rng (np_random st + n)), Suc (np_random st + n))" by blast
  from animate_sample [OF True, of rng st "fst r" "snd r"] r assms n True
  show ?thesis by auto
qed

subsection \<open>Runs of the callback\<close>

lemma consistent_init: "consistent rng show_doubleslit_init"
  by (simp add: consistent_def show_doubleslit_init_def)

lemma consistent_bars: "consistent rng st \<Longrightarrow> length (bars st) = 29"
  by (simp add: consistent_def length_relative_counts split: if_splits)

lemma consistent_animate:
  assumes "consistent rng st" and "animate rng st frame = Some (Inr st')"
  shows "consistent rng st'"
proof -
  have len: "length (bars st) = 29"
    using assms(1) by (rule consistent_bars)
  have sw: "set_width (bars st) (relative_counts a) = relative_counts a" for a
    by (rule set_width_same_length) (simp add: len length_relative_counts)
  show ?thesis
  proof (cases "frame mod 5 = 0")
    case True
    with animate_Inr [OF assms(2)] obtain n where
      "landed_y st' = landed_y st @ [fst (rng (np_random st + n))]"
      "dot st' = Some (- 1.5, 0)"
      "bars st' = set_width (bars st) (relative_counts (landed_y st'))"
      by auto
    with assms(1) show ?thesis
      by (auto simp: consistent_def sw set_width_same_length length_relative_counts
          split: if_splits)
  next
    case False
    with animate_Inr [OF assms(2)] have
      "landed_y st' = landed_y st"
      "dot st' = (if landed_y st = [] then dot st
                     else Some (- 1.5 + 4 * (real (frame mod 5) / 5),
                                last (landed_y st) * (real (frame mod 5) / 5)))"
      "bars st' = (if landed_y st = [] then bars st
                      else set_width (bars st) (relative_counts (landed_y st)))"
      by auto
    with assms(1) show ?thesis
      by (auto simp: consistent_def sw set_width_same_length length_relative_counts
          split: if_splits)
  qed
qed

lemma run_never_raises: "run rng st frames \<noteq> Some (Inl e)"
proof (induction frames arbitrary: st)
  case Nil
  show ?case by simp
next
  case (Cons frame frames)
  show ?case
  proof (cases "animate rng st frame")
    case None
    then show ?thesis by simp
  next
    case (Some r)
    show ?thesis
    proof (cases r)
      case (Inl e')
      with Some animate_never_raises [of rng st frame e'] show ?thesis by simp
    next
      case (Inr st')
      with Some Cons.IH [of st'] show ?thesis by simp
    qed
  qed
qed

lemma run_Cons_Inr:
  assumes "run rng st (frame # frames) = Some (Inr st'')"
  shows "\<exists>st'. animate rng st frame = Some (Inr st') \<and> run rng st' frames = Some (Inr st'')"
  using assms by (auto split: option.splits sum.splits)

lemma consistent_run:
  "consistent rng st \<Longrightarrow> run rng st frames = Some (Inr st') \<Longrightarrow> consistent rng st'"
proof (induction frames arbitrary: st)
  case Nil
  then show ?case by simp
next
  case (Cons frame frames)
  from run_Cons_Inr [OF Cons.prems(2)] obtain st1 where
    "animate rng st frame = Some (Inr st1)" "run rng st1 frames = Some (Inr st')" by blast
  with Cons.IH [of st1] consistent_animate [OF Cons.prems(1)] show ?case by blast
qed

lemma run_length:
  "run rng st frames = Some (Inr st') \<Longrightarrow>
     length (landed_y st') = length (landed_y st) + length (filter (\<lambda>f. f mod 5 = 0) frames)"
proof (induction frames arbitrary: st)
  case Nil
  then show ?case by simp
next
  case (Cons frame frames)
  from run_Cons_Inr [OF Cons.prems] obtain st1 where
    st1: "animate rng st frame = Some (Inr st1)" "run rng st1 frames = Some (Inr st')" by blast
  have "length (landed_y st1) = length (landed_y st) + (if frame mod 5 = 0 then 1 else 0)"
    using animate_Inr [OF st1(1)] by (auto split: if_splits)
  with Cons.IH [OF st1(2)] show ?case by simp
qed

lemma animate_fair:
  assumes "fair rng"
  shows "\<exists>st'. animate rng st frame = Some (Inr st')"
proof (cases "frame mod 5 = 0")
  case False
  from animate_other [OF this] show ?thesis by blast
next
  case True
  from sampling_fair [OF assms, of "np_random st"] obtain n where
    "rejection_sampling rng (np_random st)
       = Some (fst (rng (np_random st + n)), Suc (np_random st + n))" by blast
  from animate_sample [OF True this] show ?thesis by blast
qed

lemma run_fair:
  assumes "fair rng"
  shows "\<exists>st'. run rng st frames = Some (Inr st')"
proof (induction frames arbitrary: st)
  case Nil
  show ?case by simp
next
  case (Cons frame frames)
  from animate_fair [OF assms, of st frame] obtain st1 where
    "animate rng st frame = Some (Inr st1)" by blast
  with Cons.IH [of st1] show ?case by simp
qed

lemma count_sampling_frames: "length (filter (\<lambda>f. f mod 5 = 0) [0..<n]) = (n + 4) div 5"
proof (induction n)
  case 0
  show ?case by simp
next
  case (Suc n)
  show ?case
  proof (cases "n mod 5 = 0")
    case True
    then have "(Suc n + 4) div 5 = Suc ((n + 4) div 5)" by presburger
    with Suc True show ?thesis by simp
  next
    case False
    then have "(Suc n + 4) div 5 = (n + 4) div 5" by presburger
    with Suc False show ?thesis by simp
  qed
qed

section \<open>The claims about the sampler\<close>

text \<open>
  Claim C1. The sampling loop returns the first candidate \<open>y\<close> whose threshold \<open>u\<close>
  satisfies \<open>u < I(y)\<close>: it returns \<open>y\<close> from pass \<open>i + n\<close> exactly when that pass accepts
  and no earlier pass from \<open>i\<close> on does. When the first pass proposes \<open>y = 0\<close> with
  \<open>u = 0\<close> it accepts at once, having used one pass and no retry.
\<close>

theorem rejection_sampling_first_accepted:
  "(rejection_sampling rng i = Some (y, j) \<longleftrightarrow>
      (\<exists>n. snd (rng (i + n)) < prob (fst (rng (i + n))) \<and>
           (\<forall>k<n. \<not> snd (rng (i + k)) < prob (fst (rng (i + k)))) \<and>
           y = fst (rng (i + n)) \<and> j = Suc (i + n))) \<and>
   (rng i = (0, 0) \<longrightarrow> rejection_sampling rng i = Some (0, Suc i))"
proof (intro conjI iffI impI)
  assume "rejection_sampling rng i = Some (y, j)"
  from sampling_Some [OF this]
  show "\<exists>n. snd (rng (i + n)) < prob (fst (rng (i + n))) \<and>
           (\<forall>k<n. \<not> snd (rng (i + k)) < prob (fst (rng (i + k)))) \<and>
           y = fst (rng (i + n)) \<and> j = Suc (i + n)"
    by (simp add: accepted_def)
next
  assume "\<exists>n. snd (rng (i + n)) < prob (fst (rng (i + n))) \<and>
           (\<forall>k<n. \<not> snd (rng (i + k)) < prob (fst (rng (i + k)))) \<and>
           y = fst (rng (i + n)) \<and> j = Suc (i + n)"
  then obtain n where "accepted rng (i + n)" "\<And>k. k < n \<Longrightarrow> \<not> accepted rng (i + k)"
    "y = fst (rng (i + n))" "j = Suc (i + n)"
    by (auto simp: accepted_def)
  with sampling_first [of rng i n] show "rejection_sampling rng i = Some (y, j)"
    by simp
next
  assume "rng i = (0, 0)"
  then have "accepted rng i"
    by (simp add: accepted_def prob_0)
  from sampling_accept [OF this] \<open>rng i = (0, 0)\<close>
  show "rejection_sampling rng i = Some (0, Suc i)" by simp
qed

theorem rejection_sampling_first_accepted_witness:
  "always_centre 0 = (0, 0) \<and>
   rejection_sampling always_centre 0 = Some (0, Suc 0) \<and>
   rejection_sampling (late_centre 1) 0 = Some (0, 2)"
proof -
  have c: "always_centre 0 = (0, 0)"
    by (simp add: always_centre_def)
  have "\<exists>n. snd (late_centre 1 (0 + n)) < prob (fst (late_centre 1 (0 + n))) \<and>
           (\<forall>k<n. \<not> snd (late_centre 1 (0 + k)) < prob (fst (late_centre 1 (0 + k)))) \<and>
           (0::real) = fst (late_centre 1 (0 + n)) \<and> 2 = Suc (0 + n)"
    by (intro exI [of _ 1]) (simp add: late_centre_def prob_0 prob_half)
  with rejection_sampling_first_accepted [of "late_centre 1" 0 0 2]
  have "rejection_sampling (late_centre 1) 0 = Some (0, 2)" by blast
  with c rejection_sampling_first_accepted [of always_centre 0 0 0]
  show ?thesis by blast
qed

section \<open>The claims about the frame update\<close>

text \<open>
  Claim C3. A call of the callback that returns never lowers the number of landed
  particles, and raises it by exactly 1 when \<open>frame mod 5 = 0\<close> and by 0 otherwise. Run on
  the frames \<open>0, \<dots>, n - 1\<close> from the initial state, the callback leaves \<open>(n + 4) div 5\<close>
  particles: 10 after the 50 frames \<open>0, \<dots>, 49\<close>, and none after no frame, where the 29
  bars all have width 0. Every call and every run returns under a generator with which
  each sampling loop ends.
\<close>

theorem particle_count_per_frame:
  "(\<forall>st frame st'. animate rng st frame = Some (Inr st') \<longrightarrow>
      length (landed_y st) \<le> length (landed_y st') \<and>
      length (landed_y st') = length (landed_y st) + (if frame mod 5 = 0 then 1 else 0)) \<and>
   (\<forall>n st. run rng show_doubleslit_init [0..<n] = Some (Inr st) \<longrightarrow>
      length (landed_y st) = (n + 4) div 5) \<and>
   (\<forall>st. run rng show_doubleslit_init [0..<50] = Some (Inr st) \<longrightarrow>
      length (landed_y st) = 10) \<and>
   (fair rng \<longrightarrow>
      (\<forall>st frame. \<exists>st'. animate rng st frame = Some (Inr st')) \<and>
      (\<forall>n. \<exists>st. run rng show_doubleslit_init [0..<n] = Some (Inr st))) \<and>
   run rng show_doubleslit_init [0..<0] = Some (Inr show_doubleslit_init) \<and>
   length (landed_y show_doubleslit_init) = 0 \<and>
   length (bars show_doubleslit_init) = 29 \<and>
   (\<forall>b \<in> set (bars show_doubleslit_init). b = 0)"
proof -
  have step: "length (landed_y st) \<le> length (landed_y st') \<and>
      length (landed_y st') = length (landed_y st) + (if frame mod 5 = 0 then 1 else 0)"
    if "animate rng st frame = Some (Inr st')" for st frame st'
    using animate_Inr [OF that] by (auto split: if_splits)
  have runs: "length (landed_y st) = (n + 4) div 5"
    if "run rng show_doubleslit_init [0..<n] = Some (Inr st)" for n st
    using run_length [OF that] by (simp add: count_sampling_frames show_doubleslit_init_def)
  have fifty: "length (landed_y st) = 10"
    if "run rng show_doubleslit_init [0..<50] = Some (Inr st)" for st
    using runs [OF that] by simp
  have returns: "(\<forall>st frame. \<exists>st'. animate rng st frame = Some (Inr st')) \<and>
      (\<forall>n. \<exists>st. run rng show_doubleslit_init [0..<n] = Some (Inr st))" if "fair rng"
    using animate_fair [OF that] run_fair [OF that] by blast
  have start: "run rng show_doubleslit_init [0..<0] = Some (Inr show_doubleslit_init) \<and>
         length (landed_y show_doubleslit_init) = 0 \<and>
         length (bars show_doubleslit_init) = 29 \<and>
         (\<forall>b \<in> set (bars show_doubleslit_init). b = 0)"
    by (simp add: show_doubleslit_init_def)
  from step runs fifty returns start show ?thesis by blast
qed

theorem particle_count_per_frame_witness:
  "fair always_centre \<and>
   (\<exists>st. run always_centre show_doubleslit_init [0..<50] = Some (Inr st) \<and>
      length (landed_y st) = 10) \<and>
   (\<exists>st'. animate always_centre show_doubleslit_init 0 = Some (Inr st') \<and>
      length (landed_y st') = 1) \<and>
   (\<exists>st'. animate always_centre show_doubleslit_init 1 = Some (Inr st') \<and>
      length (landed_y st') = 0)"
proof -
  note main = particle_count_per_frame [of always_centre]
  note step = main [THEN conjunct1, rule_format]
  note fifty = main [THEN conjunct2, THEN conjunct2, THEN conjunct1, rule_format]
  note returns = main [THEN conjunct2, THEN conjunct2, THEN conjunct2, THEN conjunct1,
      rule_format, OF fair_always_centre]
  from returns obtain st where
    st: "run always_centre show_doubleslit_init [0..<50] = Some (Inr st)" by blast
  from st fifty [OF st]
  have a: "\<exists>st. run always_centre show_doubleslit_init [0..<50] = Some (Inr st) \<and>
      length (landed_y st) = 10" by blast
  from returns obtain st0 where
    st0: "animate always_centre show_doubleslit_init 0 = Some (Inr st0)" by blast
  from step [OF st0] st0
  have b: "\<exists>st'. animate always_centre show_doubleslit_init 0 = Some (Inr st') \<and>
      length (landed_y st') = 1"
    by (simp add: show_doubleslit_init_def)
  from returns obtain st1 where
    st1: "animate always_centre show_doubleslit_init 1 = Some (Inr st1)" by blast
  from step [OF st1] st1
  have c: "\<exists>st'. animate always_centre show_doubleslit_init 1 = Some (Inr st') \<and>
      length (landed_y st') = 0"
    by (simp add: show_doubleslit_init_def)
  from fair_always_centre a b c show ?thesis by blast
qed

lemma consistent_in_range:
  assumes "in_range rng" "consistent rng st" "y \<in> set (landed_y st)"
  shows "- 1 \<le> y \<and> y \<le> 1"
proof -
  from assms(2,3) obtain k where "y = fst (rng k)"
    by (auto simp: consistent_def)
  with assms(1) show ?thesis by (simp add: in_range_def)
qed

text \<open>
  Claim C4. In every state that calls of the callback reach from the initial one, with
  draws in the ranges of the library calls, each of the 29 bar widths lies in \<open>[0, 1]\<close>.
  Once a particle has landed the widths are the bin counts divided by the largest bin
  count, and some width is exactly 1; while none has landed every width is 0. A run
  returns whenever every sampling loop ends.
\<close>

theorem histogram_heights:
  assumes "in_range rng"
  shows "(\<forall>st. run rng show_doubleslit_init frames = Some (Inr st) \<longrightarrow>
            length (bars st) = 29 \<and>
            (\<forall>b \<in> set (bars st). 0 \<le> b \<and> b \<le> 1) \<and>
            (landed_y st \<noteq> [] \<longrightarrow>
               (\<exists>b \<in> set (bars st). b = 1) \<and>
               bars st = map (\<lambda>h. real h / real (Max (set (bin_counts (landed_y st) bins))))
                           (bin_counts (landed_y st) bins)) \<and>
            (landed_y st = [] \<longrightarrow> (\<forall>b \<in> set (bars st). b = 0))) \<and>
         (fair rng \<longrightarrow> (\<exists>st. run rng show_doubleslit_init frames = Some (Inr st)))"
proof (intro conjI allI impI)
  fix st
  assume run: "run rng show_doubleslit_init frames = Some (Inr st)"
  have c: "consistent rng st"
    using consistent_init run by (rule consistent_run)
  show "length (bars st) = 29"
    using c by (rule consistent_bars)
  show "\<forall>b \<in> set (bars st). 0 \<le> b \<and> b \<le> 1"
  proof (cases "landed_y st = []")
    case True
    with c show ?thesis by (simp add: consistent_def)
  next
    case False
    with c have "bars st = relative_counts (landed_y st)"
      by (simp add: consistent_def)
    then show ?thesis
      using relative_counts_bounds by simp
  qed
  {
    assume ne: "landed_y st \<noteq> []"
    with c have bars: "bars st = relative_counts (landed_y st)"
      by (simp add: consistent_def)
    from ne obtain y where y: "y \<in> set (landed_y st)"
      by (cases "landed_y st") auto
    from consistent_in_range [OF assms c y] have yr: "- 1 \<le> y" "y \<le> 1" by simp_all
    from relative_counts_full [OF y yr] bars
    show "\<exists>b \<in> set (bars st). b = 1" by simp
    from Max_counts_positive [OF y yr] bars
    show "bars st = map (\<lambda>h. real h / real (Max (set (bin_counts (landed_y st) bins))))
                           (bin_counts (landed_y st) bins)"
      by (simp add: relative_counts_def Let_def)
  }
  {
    assume "landed_y st = []"
    with c show "\<forall>b \<in> set (bars st). b = 0"
      by (simp add: consistent_def)
  }
next
  assume "fair rng"
  then show "\<exists>st. run rng show_doubleslit_init frames = Some (Inr st)"
    by (rule run_fair)
qed

theorem histogram_heights_witness:
  "in_range always_centre \<and> fair always_centre \<and>
   (\<exists>st. run always_centre show_doubleslit_init [0, 1, 2] = Some (Inr st) \<and>
      landed_y st \<noteq> [] \<and> (\<forall>b \<in> set (bars st). 0 \<le> b \<and> b \<le> 1) \<and>
      (\<exists>b \<in> set (bars st). b = 1)) \<and>
   (\<exists>st. run always_centre show_doubleslit_init [1, 2] = Some (Inr st) \<and>
      landed_y st = [] \<and> (\<forall>b \<in> set (bars st). b = 0))"
proof -
  note main = histogram_heights [OF in_range_always_centre]
  from main [of "[0, 1, 2]"] fair_always_centre obtain st where
    st: "run always_centre show_doubleslit_init [0, 1, 2] = Some (Inr st)" by blast
  from run_length [OF st] have ne: "landed_y st \<noteq> []" by auto
  from main [of "[0, 1, 2]"] st ne
  have a: "\<exists>st. run always_centre show_doubleslit_init [0, 1, 2] = Some (Inr st) \<and>
      landed_y st \<noteq> [] \<and> (\<forall>b \<in> set (bars st). 0 \<le> b \<and> b \<le> 1) \<and>
      (\<exists>b \<in> set (bars st). b = 1)" by blast
  from main [of "[1, 2]"] fair_always_centre obtain st' where
    st': "run always_centre show_doubleslit_init [1, 2] = Some (Inr st')" by blast
  from run_length [OF st'] have e: "landed_y st' = []"
    by (simp add: show_doubleslit_init_def)
  from main [of "[1, 2]"] st' e
  have b: "\<exists>st. run always_centre show_doubleslit_init [1, 2] = Some (Inr st) \<and>
      landed_y st = [] \<and> (\<forall>b \<in> set (bars st). b = 0)" by blast
  from in_range_always_centre fair_always_centre a b show ?thesis by blast
qed

text \<open>
  Claim C9. With candidates drawn from \<open>[-1, 1]\<close>, every landed position of a state
  reached from the initial one lies in \<open>[-1, 1]\<close>. Hence, once a particle has landed,
  \<^verbatim>\<open>np.histogram\<close> over the 29 bins and \<^verbatim>\<open>max\<close> succeed and the largest count is at least
  1: the branch of line 310 that keeps the counts undivided is not taken.
\<close>

theorem landed_in_domain:
  assumes "in_range rng" and "run rng show_doubleslit_init frames = Some (Inr st)"
  shows "(\<forall>y \<in> set (landed_y st). - 1 \<le> y \<and> y \<le> 1) \<and>
         (landed_y st \<noteq> [] \<longrightarrow>
            (\<exists>hist m. np_histogram (landed_y st) bins = Inr hist \<and> length hist = 29 \<and>
               py_max hist = Inr m \<and> 1 \<le> m \<and>
               histogram st = Inr (st\<lparr>bars := map (\<lambda>h. real h / real m) hist\<rparr>)))"
proof (intro conjI ballI impI)
  have c: "consistent rng st"
    using consistent_init assms(2) by (rule consistent_run)
  {
    fix y assume "y \<in> set (landed_y st)"
    from consistent_in_range [OF assms(1) c this]
    show "- 1 \<le> y" and "y \<le> 1" by simp_all
  }
  assume ne: "landed_y st \<noteq> []"
  then obtain y where y: "y \<in> set (landed_y st)"
    by (cases "landed_y st") auto
  from consistent_in_range [OF assms(1) c y] have yr: "- 1 \<le> y" "y \<le> 1" by simp_all
  define hist where "hist = bin_counts (landed_y st) bins"
  define m where "m = Max (set hist)"
  have h: "np_histogram (landed_y st) bins = Inr hist"
    by (simp add: hist_def np_histogram_bins)
  have l: "length hist = 29"
    by (simp add: hist_def length_counts_bins)
  then have "hist \<noteq> []" by auto
  then have pm: "py_max hist = Inr m"
    unfolding m_def by (rule py_max_Max)
  have pos: "1 \<le> m"
    using Max_counts_positive [OF y yr] by (simp add: m_def hist_def)
  have "set_width (bars st) (relative_counts (landed_y st)) = relative_counts (landed_y st)"
    by (rule set_width_same_length) (simp add: consistent_bars [OF c] length_relative_counts)
  moreover have "relative_counts (landed_y st) = map (\<lambda>h. real h / real m) hist"
    using pos by (simp add: relative_counts_def Let_def hist_def m_def)
  ultimately have "histogram st = Inr (st\<lparr>bars := map (\<lambda>h. real h / real m) hist\<rparr>)"
    using histogram_landed [OF ne] by simp
  with h l pm pos
  show "\<exists>hist m. np_histogram (landed_y st) bins = Inr hist \<and> length hist = 29 \<and>
               py_max hist = Inr m \<and> 1 \<le> m \<and>
               histogram st = Inr (st\<lparr>bars := map (\<lambda>h. real h / real m) hist\<rparr>)"
    by blast
qed

theorem landed_in_domain_witness:
  "in_range always_centre \<and>
   (\<exists>st. run always_centre show_doubleslit_init [0, 1] = Some (Inr st) \<and>
      landed_y st \<noteq> [] \<and> (\<forall>y \<in> set (landed_y st). - 1 \<le> y \<and> y \<le> 1) \<and>
      (\<exists>hist m. np_histogram (landed_y st) bins = Inr hist \<and> py_max hist = Inr m \<and> 1 \<le> m))"
proof -
  from run_fair [OF fair_always_centre] obtain st where
    st: "run always_centre show_doubleslit_init [0, 1] = Some (Inr st)" by blast
  from run_length [OF st] have ne: "landed_y st \<noteq> []" by auto
  from landed_in_domain [OF in_range_always_centre st] ne
  have "(\<forall>y \<in> set (landed_y st). - 1 \<le> y \<and> y \<le> 1) \<and>
      (\<exists>hist m. np_histogram (landed_y st) bins = Inr hist \<and> py_max hist = Inr m \<and> 1 \<le> m)"
    by blast
  with in_range_always_centre st ne show ?thesis by blast
qed

text \<open>
  Claim C10. The driver calls the callback on the frames \<open>0, 1, 2, \<dots>\<close>. After the call
  for frame \<open>f\<close> the list of landed particles holds exactly \<open>f div 5 + 1\<close> positions, so
  it is not empty, and the dot has a position: frame 0 samples the first particle and
  places the dot. The run up to frame \<open>f\<close> returns whenever every sampling loop ends.
\<close>

theorem in_flight_never_none:
  "(\<forall>st. run rng show_doubleslit_init [0..<Suc f] = Some (Inr st) \<longrightarrow>
      length (landed_y st) = f div 5 + 1 \<and> landed_y st \<noteq> [] \<and> dot st \<noteq> None) \<and>
   (fair rng \<longrightarrow> (\<exists>st. run rng show_doubleslit_init [0..<Suc f] = Some (Inr st)))"
proof (intro conjI allI impI)
  fix st
  assume run: "run rng show_doubleslit_init [0..<Suc f] = Some (Inr st)"
  have "(Suc f + 4) div 5 = f div 5 + 1" by presburger
  with run_length [OF run] count_sampling_frames [of "Suc f"]
  show len: "length (landed_y st) = f div 5 + 1"
    by (simp add: show_doubleslit_init_def)
  then show ne: "landed_y st \<noteq> []" by auto
  have "consistent rng st"
    using consistent_init run by (rule consistent_run)
  with ne show "dot st \<noteq> None"
    by (simp add: consistent_def)
next
  assume "fair rng"
  then show "\<exists>st. run rng show_doubleslit_init [0..<Suc f] = Some (Inr st)"
    by (rule run_fair)
qed

theorem in_flight_never_none_witness:
  "fair always_centre \<and>
   (\<exists>st. run always_centre show_doubleslit_init [0..<Suc 0] = Some (Inr st) \<and>
      length (landed_y st) = 1 \<and> dot st \<noteq> None) \<and>
   (\<exists>st. run always_centre show_doubleslit_init [0..<Suc 7] = Some (Inr st) \<and>
      length (landed_y st) = 2 \<and> dot st \<noteq> None)"
proof -
  from in_flight_never_none [of always_centre 0] fair_always_centre
  have a: "\<exists>st. run always_centre show_doubleslit_init [0..<Suc 0] = Some (Inr st) \<and>
      length (landed_y st) = 1 \<and> dot st \<noteq> None"
    by fastforce
  from in_flight_never_none [of always_centre 7] fair_always_centre
  have b: "\<exists>st. run always_centre show_doubleslit_init [0..<Suc 7] = Some (Inr st) \<and>
      length (landed_y st) = 2 \<and> dot st \<noteq> None"
    by fastforce
  from fair_always_centre a b show ?thesis by blast
qed

text \<open>
  Claim C6. On a frame that does not sample (\<open>frame mod 5 \<noteq> 0\<close>), calling the callback
  twice in a row with the same frame leaves the dot at the same position after the second
  call as after the first. That position is a function of the frame and of the landed
  positions alone: in a state reached from the initial one it is nothing while no particle
  has landed, and otherwise the point computed from \<open>frame mod 5\<close> and the last landed
  position.
\<close>

theorem in_flight_idempotent:
  assumes "frame mod 5 \<noteq> 0"
  shows "\<exists>st1 st2. animate rng st frame = Some (Inr st1) \<and>
           animate rng st1 frame = Some (Inr st2) \<and>
           dot st2 = dot st1 \<and> landed_y st1 = landed_y st \<and> landed_y st2 = landed_y st \<and>
           (landed_y st \<noteq> [] \<longrightarrow>
              dot st1 = Some (- 1.5 + 4 * (real (frame mod 5) / 5),
                              last (landed_y st) * (real (frame mod 5) / 5))) \<and>
           ((\<exists>frames. run rng show_doubleslit_init frames = Some (Inr st)) \<longrightarrow>
              landed_y st = [] \<longrightarrow> dot st1 = None)"
proof -
  from animate_other [OF assms, of rng st] obtain st1 where
    st1: "animate rng st frame = Some (Inr st1)" "landed_y st1 = landed_y st"
      "dot st1 = (if landed_y st = [] then dot st
                 else Some (- 1.5 + 4 * (real (frame mod 5) / 5),
                            last (landed_y st) * (real (frame mod 5) / 5)))"
    by blast
  from animate_other [OF assms, of rng st1] obtain st2 where
    st2: "animate rng st1 frame = Some (Inr st2)" "landed_y st2 = landed_y st1"
      "dot st2 = (if landed_y st1 = [] then dot st1
                 else Some (- 1.5 + 4 * (real (frame mod 5) / 5),
                            last (landed_y st1) * (real (frame mod 5) / 5)))"
    by blast
  have same: "dot st2 = dot st1"
    using st1(2,3) st2(3) by simp
  have reach: "dot st1 = None"
    if "run rng show_doubleslit_init frames = Some (Inr st)" "landed_y st = []" for frames
  proof -
    from consistent_init that(1) have "consistent rng st" by (rule consistent_run)
    with that(2) st1(3) show ?thesis by (simp add: consistent_def)
  qed
  have pos: "landed_y st \<noteq> [] \<longrightarrow>
              dot st1 = Some (- 1.5 + 4 * (real (frame mod 5) / 5),
                              last (landed_y st) * (real (frame mod 5) / 5))"
    using st1(3) by simp
  have l2: "landed_y st2 = landed_y st"
    using st1(2) st2(2) by simp
  have reach': "(\<exists>frames. run rng show_doubleslit_init frames = Some (Inr st)) \<longrightarrow>
              landed_y st = [] \<longrightarrow> dot st1 = None"
    using reach by blast
  from st1(1) st2(1) same st1(2) l2 pos reach' show ?thesis
    by - (intro exI [of _ st1] exI [of _ st2] conjI, assumption+)
qed

theorem in_flight_idempotent_witness:
  "(3::nat) mod 5 \<noteq> 0 \<and>
   (\<exists>st. run always_centre show_doubleslit_init [0] = Some (Inr st) \<and> landed_y st \<noteq> [] \<and>
      (\<exists>st1 st2. animate always_centre st 3 = Some (Inr st1) \<and>
         animate always_centre st1 3 = Some (Inr st2) \<and> dot st2 = dot st1 \<and>
         dot st1 = Some (- 1.5 + 4 * (real (3 mod 5) / 5),
                         last (landed_y st) * (real (3 mod 5) / 5)))) \<and>
   (\<exists>st1 st2. animate always_centre show_doubleslit_init 3 = Some (Inr st1) \<and>
      animate always_centre st1 3 = Some (Inr st2) \<and> dot st2 = dot st1 \<and> dot st1 = None)"
proof -
  have f: "(3::nat) mod 5 \<noteq> 0" by simp
  from run_fair [OF fair_always_centre] obtain st where
    st: "run always_centre show_doubleslit_init [0] = Some (Inr st)" by blast
  from run_length [OF st] have ne: "landed_y st \<noteq> []" by auto
  from in_flight_idempotent [OF f, of always_centre st] ne
  have "\<exists>st1 st2. animate always_centre st 3 = Some (Inr st1) \<and>
         animate always_centre st1 3 = Some (Inr st2) \<and> dot st2 = dot st1 \<and>
         dot st1 = Some (- 1.5 + 4 * (real (3 mod 5) / 5),
                         last (landed_y st) * (real (3 mod 5) / 5))"
    by blast
  with st ne have a: "\<exists>st. run always_centre show_doubleslit_init [0] = Some (Inr st) \<and>
      landed_y st \<noteq> [] \<and>
      (\<exists>st1 st2. animate always_centre st 3 = Some (Inr st1) \<and>
         animate always_centre st1 3 = Some (Inr st2) \<and> dot st2 = dot st1 \<and>
         dot st1 = Some (- 1.5 + 4 * (real (3 mod 5) / 5),
                         last (landed_y st) * (real (3 mod 5) / 5)))"
    by blast
  have r: "\<exists>frames. run always_centre show_doubleslit_init frames
             = Some (Inr show_doubleslit_init)"
    by (intro exI [of _ "[]"]) simp
  have e: "landed_y show_doubleslit_init = []"
    by (simp add: show_doubleslit_init_def)
  from in_flight_idempotent [OF f, of always_centre show_doubleslit_init] r e
  have b: "\<exists>st1 st2. animate always_centre show_doubleslit_init 3 = Some (Inr st1) \<and>
      animate always_centre st1 3 = Some (Inr st2) \<and> dot st2 = dot st1 \<and> dot st1 = None"
    by blast
  from f a b show ?thesis by blast
qed

text \<open>
  Claim C7. On a frame between two samplings (\<open>frame mod 5 \<noteq> 0\<close>) with a landed
  particle, the callback puts the dot on the segment from the fixed start \<open>(-1.5, 0)\<close> to
  the landing point \<open>(2.5, target)\<close> on the detector line, \<open>target\<close> being the last landed
  position: with \<open>s = frame mod 5\<close> the dot is the start plus \<open>s/5\<close> of the displacement,
  and its second coordinate is \<open>(s/5) \<sqdot> target\<close>.
\<close>

theorem in_flight_interpolates:
  assumes "frame mod 5 \<noteq> 0" and "landed_y st \<noteq> []"
  shows "\<exists>st' x y. animate rng st frame = Some (Inr st') \<and>
           landed_y st' = landed_y st \<and> dot st' = Some (x, y) \<and>
           x = - 1.5 + (real (frame mod 5) / 5) * (2.5 - (- 1.5)) \<and>
           y = 0 + (real (frame mod 5) / 5) * (last (landed_y st) - 0) \<and>
           y = (real (frame mod 5) / 5) * last (landed_y st)"
proof -
  from animate_other [OF assms(1), of rng st] assms(2) obtain st' where
    "animate rng st frame = Some (Inr st')" "landed_y st' = landed_y st"
    "dot st' = Some (- 1.5 + 4 * (real (frame mod 5) / 5),
                     last (landed_y st) * (real (frame mod 5) / 5))"
    by auto
  moreover have "- 1.5 + 4 * (real (frame mod 5) / 5)
      = - 1.5 + (real (frame mod 5) / 5) * (2.5 - (- 1.5))"
    by simp
  moreover have "last (landed_y st) * (real (frame mod 5) / 5)
      = 0 + (real (frame mod 5) / 5) * (last (landed_y st) - 0)"
    by simp
  moreover have "last (landed_y st) * (real (frame mod 5) / 5)
      = (real (frame mod 5) / 5) * last (landed_y st)"
    by simp
  ultimately show ?thesis by metis
qed

lemma prob_twentieth: "0 < prob (1 / 20)"
proof -
  have "(1 / 2 :: real) < pi / 2"
    using pi_ge_two by simp
  then have "0 < cos (1 / 2 :: real)"
    by (intro cos_gt_zero) simp_all
  moreover have "0 < sin (pi / 10)"
    by (intro sin_gt_zero) simp_all
  ultimately show ?thesis
    by (simp add: prob_def np_sinc_def)
qed

lemma accepted_off_centre: "accepted off_centre k"
  by (simp add: accepted_def off_centre_def prob_twentieth)

theorem in_flight_interpolates_witness:
  "(2::nat) mod 5 \<noteq> 0 \<and>
   (\<exists>st. animate off_centre show_doubleslit_init 0 = Some (Inr st) \<and>
      landed_y st = [1 / 20] \<and>
      (\<exists>st'. animate off_centre st 2 = Some (Inr st') \<and> dot st' = Some (1 / 10, 1 / 50)))"
proof -
  have f: "(2::nat) mod 5 \<noteq> 0" by simp
  have "rejection_sampling off_centre (np_random show_doubleslit_init)
          = Some (fst (off_centre (np_random show_doubleslit_init)),
                  Suc (np_random show_doubleslit_init))"
    using accepted_off_centre by (rule sampling_accept)
  from animate_sample [OF _ this, of 0] obtain st where
    st: "animate off_centre show_doubleslit_init 0 = Some (Inr st)" "landed_y st = [1 / 20]"
    by (auto simp: off_centre_def show_doubleslit_init_def)
  then have ne: "landed_y st \<noteq> []" by simp
  from in_flight_interpolates [OF f ne, of off_centre] st(2)
  have "\<exists>st'. animate off_centre st 2 = Some (Inr st') \<and> dot st' = Some (1 / 10, 1 / 50)"
    by auto
  with f st show ?thesis by blast
qed

text \<open>
  Claim C5, as the code has it. The sampling loop has no retry bound and no failure
  value. On a sampling frame (\<open>frame mod 5 = 0\<close>) the callback appends the first accepted
  candidate however many passes were rejected before it; when no pass ever accepts, the
  call does not return; and no call raises. There is no \<^verbatim>\<open>SamplingExhausted\<close> condition,
  no skipped accumulation step and no logged warning.
\<close>

theorem sampling_has_no_retry_cap:
  assumes "frame mod 5 = 0"
  shows "(accepted rng (np_random st + n) \<and> (\<forall>k<n. \<not> accepted rng (np_random st + k)) \<longrightarrow>
            (\<exists>st'. animate rng st frame = Some (Inr st') \<and>
               landed_y st' = landed_y st @ [fst (rng (np_random st + n))])) \<and>
         ((\<forall>k. \<not> accepted rng (np_random st + k)) \<longrightarrow> animate rng st frame = None) \<and>
         animate rng st frame \<noteq> Some (Inl e)"
proof (intro conjI impI)
  assume "accepted rng (np_random st + n) \<and> (\<forall>k<n. \<not> accepted rng (np_random st + k))"
  then have "rejection_sampling rng (np_random st)
      = Some (fst (rng (np_random st + n)), Suc (np_random st + n))"
    by (intro sampling_first) simp_all
  from animate_sample [OF assms this]
  show "\<exists>st'. animate rng st frame = Some (Inr st') \<and>
               landed_y st' = landed_y st @ [fst (rng (np_random st + n))]"
    by blast
next
  assume "\<forall>k. \<not> accepted rng (np_random st + k)"
  then have "rejection_sampling rng (np_random st) = None"
    by (intro sampling_None) simp
  with assms show "animate rng st frame = None"
    by (rule animate_None)
next
  show "animate rng st frame \<noteq> Some (Inl e)"
    by (rule animate_never_raises)
qed

theorem sampling_has_no_retry_cap_witness:
  "(0::nat) mod 5 = 0 \<and>
   (\<exists>st'. animate (late_centre 10001) show_doubleslit_init 0 = Some (Inr st') \<and>
      landed_y st' = [0]) \<and>
   animate never_centre show_doubleslit_init 0 = None"
proof -
  have f: "(0::nat) mod 5 = 0" by simp
  have "accepted (late_centre 10001) (np_random show_doubleslit_init + 10001) \<and>
      (\<forall>k<10001. \<not> accepted (late_centre 10001) (np_random show_doubleslit_init + k))"
    by (simp add: accepted_late_centre show_doubleslit_init_def)
  with sampling_has_no_retry_cap [OF f, of "late_centre 10001" show_doubleslit_init 10001]
  have a: "\<exists>st'. animate (late_centre 10001) show_doubleslit_init 0 = Some (Inr st') \<and>
      landed_y st' = [0]"
    by (simp add: show_doubleslit_init_def late_centre_def)
  have "\<forall>k. \<not> accepted never_centre (np_random show_doubleslit_init + k)"
    by (simp add: accepted_never_centre)
  with sampling_has_no_retry_cap [OF f, of never_centre show_doubleslit_init]
  have b: "animate never_centre show_doubleslit_init 0 = None"
    by blast
  from f a b show ?thesis by blast
qed

text \<open>
  After 10001 rejected passes, more than a cap of 10000 retries would allow, the loop
  still returns the candidate of pass 10001 and the frame appends it.
\<close>

theorem sampling_cap_counterexample:
  "rejection_sampling (late_centre 10001) 0 = Some (0, 10002) \<and>
   map_option (map_sum id landed_y) (animate (late_centre 10001) show_doubleslit_init 0)
     = Some (Inr [0])"
proof
  have acc: "accepted (late_centre 10001) (0 + 10001)"
    by (simp add: accepted_late_centre)
  have rej: "\<not> accepted (late_centre 10001) (0 + k)" if "k < 10001" for k
    using that by (simp add: accepted_late_centre)
  from sampling_first [OF acc rej]
  show s: "rejection_sampling (late_centre 10001) 0 = Some (0, 10002)"
    by (simp add: late_centre_def)
  then have "rejection_sampling (late_centre 10001) (np_random show_doubleslit_init)
      = Some (0, 10002)"
    by (simp add: show_doubleslit_init_def)
  from animate_sample [OF _ this, of 0] obtain st' where
    "animate (late_centre 10001) show_doubleslit_init 0 = Some (Inr st')"
    "landed_y st' = [0]"
    by (auto simp: show_doubleslit_init_def)
  then show "map_option (map_sum id landed_y)
      (animate (late_centre 10001) show_doubleslit_init 0) = Some (Inr [0])"
    by simp
qed

end
